theory Spec2Isabelle
  imports Complex_Main "HOL-Library.Multiset"
begin

section \<open>The semantic search notebook: data model\<close>

text \<open>
  The notebook \<^verbatim>\<open>semantic_search.ipynb\<close> holds two pieces of code that rank documents by
  cosine similarity: the module-level function \<^verbatim>\<open>find_most_similar\<close>, which reads the global
  array \<^verbatim>\<open>doc_embeddings\<close>, and the class \<^verbatim>\<open>SimpleSemanticSearch\<close> with its methods
  \<^verbatim>\<open>index_documents\<close> and \<^verbatim>\<open>search\<close>.

  Three collaborators are library code: the sentence encoder \<^verbatim>\<open>model.encode\<close>, the similarity
  \<^verbatim>\<open>util.pytorch_cos_sim\<close> and \<^verbatim>\<open>np.argsort\<close>. The encoder is the field \<^verbatim>\<open>model\<close> of the object;
  the other two are parameters of the embedded functions. Similarity scores are Python floats;
  they are modelled as real numbers (no NaN, no rounding).
\<close>

datatype error = EmbeddingError | TypeError | IndexError | OverflowError

type_synonym vec = "real list"

type_synonym embedder = "string \<Rightarrow> error + vec"

text \<open>
  The object state of \<^verbatim>\<open>SimpleSemanticSearch\<close>. The field \<^verbatim>\<open>embeddings\<close> is \<^verbatim>\<open>None\<close> until
  the first successful \<^verbatim>\<open>index_documents\<close>.
\<close>

record SimpleSemanticSearch =
  model :: embedder
  documents :: "string list"
  embeddings :: "vec list option"

section \<open>Python and NumPy primitives\<close>

text \<open>A list comprehension whose element expression may raise: the first error ends it.\<close>

fun comprehend :: "('a \<Rightarrow> error + 'b) \<Rightarrow> 'a list \<Rightarrow> error + 'b list" where
  "comprehend f [] = Inr []"
| "comprehend f (x # xs) =
     (case f x of
        Inl e \<Rightarrow> Inl e
      | Inr y \<Rightarrow> (case comprehend f xs of Inl e \<Rightarrow> Inl e | Inr ys \<Rightarrow> Inr (y # ys)))"

text \<open>
  \<^verbatim>\<open>model.encode(documents)\<close> on a list of texts: one vector per text, in order; the call
  raises if the encoder raises on any of the texts.
\<close>

definition encode_batch :: "embedder \<Rightarrow> string list \<Rightarrow> error + vec list" where
  "encode_batch enc docs = comprehend enc docs"

text \<open>The slice \<^verbatim>\<open>xs[:k]\<close>: a negative \<^verbatim>\<open>k\<close> counts from the end.\<close>

definition slice_to :: "int \<Rightarrow> 'a list \<Rightarrow> 'a list" where
  "slice_to k xs = (if 0 \<le> k then take (nat k) xs else take (length xs - nat (- k)) xs)"

text \<open>
  Indexing a NumPy array with a Python integer: a negative index counts from the end. An
  index outside \<^verbatim>\<open>[-n, n)\<close> raises \<^verbatim>\<open>IndexError\<close> when it fits a 64-bit C integer; beyond
  that NumPy cannot convert it and raises \<^verbatim>\<open>OverflowError\<close>. An array has fewer than
  \<^verbatim>\<open>2^63\<close> rows, so every index within \<^verbatim>\<open>[-n, n)\<close> fits.
\<close>

definition np_index :: "'a list \<Rightarrow> int \<Rightarrow> error + 'a" where
  "np_index xs i =
     (let n = int (length xs) in
      if 0 \<le> i \<and> i < n then Inr (xs ! nat i)
      else if - n \<le> i \<and> i < 0 then Inr (xs ! nat (n + i))
      else if - (2 ^ 63) \<le> i \<and> i < 2 ^ 63 then Inl IndexError
      else Inl OverflowError)"

text \<open>Indexing a Python list with a non-negative NumPy integer.\<close>

definition list_index :: "'a list \<Rightarrow> nat \<Rightarrow> error + 'a" where
  "list_index xs i = (if i < length xs then Inr (xs ! i) else Inl IndexError)"

text \<open>
  What \<^verbatim>\<open>np.argsort\<close> promises for an array of numbers: a rearrangement of the positions
  \<^verbatim>\<open>0 .. n-1\<close> along which the values ascend. Its default kind is not stable, so nothing is
  promised about the order of positions that hold equal values.
\<close>

definition argsort_ok :: "(real list \<Rightarrow> nat list) \<Rightarrow> bool" where
  "argsort_ok argsort \<longleftrightarrow>
     (\<forall>xs. mset (argsort xs) = mset [0..<length xs] \<and> sorted (map (\<lambda>i. xs ! i) (argsort xs)))"

text \<open>
  One argsort that meets \<^const>\<open>argsort_ok\<close>, for concrete runs: an insertion sort, which
  keeps positions of equal values in ascending order. It stands for one admissible
  behaviour of \<^verbatim>\<open>np.argsort\<close>, whose default kind may list equal values in another order.
\<close>

definition stable_argsort :: "real list \<Rightarrow> nat list" where
  "stable_argsort xs = sort_key (\<lambda>i. xs ! i) [0..<length xs]"

section \<open>Cosine similarity\<close>

definition dot :: "vec \<Rightarrow> vec \<Rightarrow> real" where
  "dot a b = (\<Sum>(x, y) \<leftarrow> zip a b. x * y)"

definition norm2 :: "vec \<Rightarrow> real" where
  "norm2 a = sqrt (dot a a)"

text \<open>
  Modelled from the spec: \<^verbatim>\<open>util.pytorch_cos_sim\<close> is a function of the sentence-transformers
  library and is not part of the notebook. The specification gives it as
  \<^verbatim>\<open>dot(a,b) / (norm(a) * norm(b))\<close>, defined as 0 when either vector has zero norm.
\<close>

definition cos_sim :: "vec \<Rightarrow> vec \<Rightarrow> real" where
  "cos_sim a b =
     (if norm2 a = 0 \<or> norm2 b = 0 then 0 else dot a b / (norm2 a * norm2 b))"

section \<open>The notebook's functions\<close>

text \<open>
  \<^verbatim>\<open>find_most_similar(doc_idx, top_k=3)\<close>. The global \<^verbatim>\<open>doc_embeddings\<close> is passed in and
  returned, so that the effect of the call on it is part of the result.
\<close>

definition find_most_similar ::
  "(vec \<Rightarrow> vec \<Rightarrow> real) \<Rightarrow> (real list \<Rightarrow> nat list) \<Rightarrow> vec list \<Rightarrow> int \<Rightarrow> int
     \<Rightarrow> (error + (nat \<times> real) list) \<times> vec list" where
  "find_most_similar pytorch_cos_sim argsort doc_embeddings doc_idx top_k =
     (case np_index doc_embeddings doc_idx of
        Inl e \<Rightarrow> (Inl e, doc_embeddings)
      | Inr query_embedding \<Rightarrow>
          (let similarities = map (pytorch_cos_sim query_embedding) doc_embeddings;
               sorted_indices = rev (argsort similarities);
               top_indices = slice_to top_k (filter (\<lambda>idx. int idx \<noteq> doc_idx) sorted_indices)
           in (comprehend
                 (\<lambda>idx. case list_index similarities idx of
                           Inl e \<Rightarrow> Inl e | Inr s \<Rightarrow> Inr (idx, s))
                 top_indices,
               doc_embeddings)))"

text \<open>\<^verbatim>\<open>SimpleSemanticSearch.__init__\<close>, with the loaded encoder in place of its name.\<close>

definition init :: "embedder \<Rightarrow> SimpleSemanticSearch" where
  "init enc = \<lparr>model = enc, documents = [], embeddings = None\<rparr>"

text \<open>
  \<^verbatim>\<open>SimpleSemanticSearch.index_documents\<close>. The method assigns \<^verbatim>\<open>self.documents\<close> before it
  calls the encoder, so an exception of the encoder leaves the object with the new documents
  and the old embeddings. The second component is the object after the call.
\<close>

definition index_documents ::
  "SimpleSemanticSearch \<Rightarrow> string list \<Rightarrow> (error + unit) \<times> SimpleSemanticSearch" where
  "index_documents self docs =
     (let self1 = self\<lparr>documents := docs\<rparr> in
      case encode_batch (model self1) docs of
        Inl e \<Rightarrow> (Inl e, self1)
      | Inr embs \<Rightarrow> (Inr (), self1\<lparr>embeddings := Some embs\<rparr>))"

text \<open>
  \<^verbatim>\<open>SimpleSemanticSearch.search(query, top_k=3)\<close>. Iterating over \<^verbatim>\<open>self.embeddings\<close> while it
  is still \<^verbatim>\<open>None\<close> raises \<^verbatim>\<open>TypeError\<close>.
\<close>

definition search ::
  "(vec \<Rightarrow> vec \<Rightarrow> real) \<Rightarrow> (real list \<Rightarrow> nat list) \<Rightarrow> SimpleSemanticSearch \<Rightarrow> string \<Rightarrow> int
     \<Rightarrow> (error + (string \<times> real) list) \<times> SimpleSemanticSearch" where
  "search pytorch_cos_sim argsort self query top_k =
     (case model self query of
        Inl e \<Rightarrow> (Inl e, self)
      | Inr query_embedding \<Rightarrow>
          (case embeddings self of
             None \<Rightarrow> (Inl TypeError, self)
           | Some embs \<Rightarrow>
               (let similarities = map (pytorch_cos_sim query_embedding) embs;
                    top_indices = slice_to top_k (rev (argsort similarities))
                in (comprehend
                      (\<lambda>idx. case list_index (documents self) idx of
                                Inl e \<Rightarrow> Inl e
                              | Inr d \<Rightarrow> (case list_index similarities idx of
                                           Inl e \<Rightarrow> Inl e | Inr s \<Rightarrow> Inr (d, s)))
                      top_indices,
                    self))))"

section \<open>A small encoder for concrete runs\<close>

text \<open>
  A stand-in for the sentence encoder on a handful of words: two-dimensional vectors, the
  zero vector for every unknown word, and an error on the empty text.
\<close>

definition toy_model :: embedder where
  "toy_model text =
     (if text = ''cat'' then Inr [1, 0]
      else if text = ''kitten'' then Inr [2, 0]
      else if text = ''dog'' then Inr [0, 1]
      else if text = '''' then Inl EmbeddingError
      else Inr [0, 0])"

definition pets_index :: SimpleSemanticSearch where
  "pets_index = snd (index_documents (init toy_model) [''cat'', ''dog'', ''kitten''])"

lemmas run_defs =
  search_def find_most_similar_def index_documents_def init_def encode_batch_def
  toy_model_def pets_index_def cos_sim_def norm2_def dot_def stable_argsort_def
  slice_to_def list_index_def np_index_def Let_def

section \<open>Facts about the primitives\<close>

lemma comprehend_all_Inr:
  "(\<And>x. x \<in> set xs \<Longrightarrow> f x = Inr (g x)) \<Longrightarrow> comprehend f xs = Inr (map g xs)"
  by (induction xs) simp_all

lemma comprehend_Inr_length: "comprehend f xs = Inr ys \<Longrightarrow> length ys = length xs"
  by (induction xs arbitrary: ys) (auto split: sum.splits)

lemma comprehend_Inr_nth:
  "comprehend f xs = Inr ys \<Longrightarrow> i < length xs \<Longrightarrow> f (xs ! i) = Inr (ys ! i)"
proof (induction xs arbitrary: ys i)
  case Nil
  then show ?case by simp
next
  case (Cons x xs)
  then show ?case by (cases i) (auto split: sum.splits)
qed

lemma argsort_ok_set: "argsort_ok argsort \<Longrightarrow> set (argsort xs) = {0..<length xs}"
  unfolding argsort_ok_def by (metis mset_eq_setD set_upt)

lemma argsort_ok_length: "argsort_ok argsort \<Longrightarrow> length (argsort xs) = length xs"
  unfolding argsort_ok_def by (metis length_upt mset_eq_length minus_nat.diff_0)

lemma argsort_ok_sorted: "argsort_ok argsort \<Longrightarrow> sorted (map (\<lambda>i. xs ! i) (argsort xs))"
  unfolding argsort_ok_def by blast

lemma stable_argsort_ok: "argsort_ok stable_argsort"
  unfolding argsort_ok_def stable_argsort_def by simp

lemma set_slice_to: "set (slice_to k xs) \<subseteq> set xs"
  by (auto simp: slice_to_def dest: in_set_takeD)

lemma length_slice_to: "0 \<le> k \<Longrightarrow> length (slice_to k xs) = min (nat k) (length xs)"
  by (simp add: slice_to_def)

lemma encode_batch_length: "encode_batch enc docs = Inr embs \<Longrightarrow> length embs = length docs"
  unfolding encode_batch_def by (rule comprehend_Inr_length)

lemma encode_batch_nth:
  "encode_batch enc docs = Inr embs \<Longrightarrow> i < length docs \<Longrightarrow> enc (docs ! i) = Inr (embs ! i)"
  unfolding encode_batch_def by (rule comprehend_Inr_nth)

lemma index_documents_Inr:
  assumes "index_documents self0 docs = (Inr (), self)"
  shows "\<exists>embs. encode_batch (model self0) docs = Inr embs \<and> model self = model self0
           \<and> documents self = docs \<and> embeddings self = Some embs"
  using assms by (auto simp: index_documents_def Let_def split: sum.splits)

lemma index_documents_Inl:
  assumes "encode_batch (model self0) docs = Inl e"
  shows "index_documents self0 docs = (Inl e, self0\<lparr>documents := docs\<rparr>)"
  using assms by (simp add: index_documents_def Let_def)

lemma search_in_sync:
  assumes ok: "argsort_ok argsort"
    and q: "model self query = Inr qe"
    and e: "embeddings self = Some embs"
    and len: "length embs = length (documents self)"
  shows "search pytorch_cos_sim argsort self query top_k =
           (Inr (map (\<lambda>p. (documents self ! p, pytorch_cos_sim qe (embs ! p)))
                  (slice_to top_k (rev (argsort (map (pytorch_cos_sim qe) embs))))), self)"
proof -
  let ?sims = "map (pytorch_cos_sim qe) embs"
  let ?top = "slice_to top_k (rev (argsort ?sims))"
  have in_range: "p < length embs" if "p \<in> set ?top" for p
  proof -
    from that have "p \<in> set (argsort ?sims)" using set_slice_to by fastforce
    then show ?thesis using argsort_ok_set [OF ok, of ?sims] by simp
  qed
  have "comprehend
          (\<lambda>idx. case list_index (documents self) idx of
                    Inl e \<Rightarrow> Inl e
                  | Inr d \<Rightarrow> (case list_index ?sims idx of
                               Inl e \<Rightarrow> Inl e | Inr s \<Rightarrow> Inr (d, s)))
          ?top
        = Inr (map (\<lambda>p. (documents self ! p, pytorch_cos_sim qe (embs ! p))) ?top)"
    by (rule comprehend_all_Inr) (use in_range len in \<open>simp add: list_index_def\<close>)
  then show ?thesis by (simp add: search_def q e Let_def)
qed

lemma descending_prefix:
  assumes "sorted (map f xs)"
  shows "sorted_wrt (\<lambda>x y. x \<ge> y) (map f (slice_to k (rev xs)))"
proof -
  have "sorted_wrt (\<lambda>x y. x \<ge> y) (rev (map f xs))"
    using assms by (simp add: sorted_wrt_rev)
  then have "sorted_wrt (\<lambda>x y. x \<ge> y) (take m (map f (rev xs)))" for m
    by (simp add: rev_map)
  then show ?thesis by (auto simp: slice_to_def take_map)
qed

text \<open>The three-document index used in the concrete runs.\<close>

lemma pets_index_indexed:
  "index_documents (init toy_model) [''cat'', ''dog'', ''kitten''] = (Inr (), pets_index)"
  by (simp add: run_defs)

lemma pets_index_embeddings: "embeddings pets_index = Some [[1, 0], [0, 1], [2, 0]]"
  by (simp add: run_defs)

lemma pets_index_model: "model pets_index = toy_model"
  by (simp add: run_defs)

section \<open>Read-only operations\<close>

text \<open>
  Claim C10. \<^verbatim>\<open>search\<close> and \<^verbatim>\<open>find_most_similar\<close> are read-only: whether the call returns a
  result or raises, the object (its documents and its embeddings) after \<^verbatim>\<open>search\<close> and the
  embedding table after \<^verbatim>\<open>find_most_similar\<close> are what they were before the call.
\<close>

theorem search_and_find_most_similar_read_only:
  "snd (search pytorch_cos_sim argsort self query top_k) = self \<and>
   snd (find_most_similar pytorch_cos_sim argsort doc_embeddings doc_idx top_k') = doc_embeddings"
proof
  show "snd (search pytorch_cos_sim argsort self query top_k) = self"
  proof (cases "model self query")
    case (Inl e)
    then show ?thesis by (simp add: search_def)
  next
    case (Inr query_embedding)
    then show ?thesis
      by (cases "embeddings self") (simp_all add: search_def Let_def)
  qed
next
  show "snd (find_most_similar pytorch_cos_sim argsort doc_embeddings doc_idx top_k')
          = doc_embeddings"
    by (cases "np_index doc_embeddings doc_idx") (simp_all add: find_most_similar_def Let_def)
qed

section \<open>Length, content and order of search results\<close>

lemma argsort_ok_distinct: "argsort_ok argsort \<Longrightarrow> distinct (argsort xs)"
  unfolding argsort_ok_def by (metis distinct_upt mset_eq_imp_distinct_iff)

lemma slice_to_take: "\<exists>m. slice_to k xs = take m xs"
  by (auto simp: slice_to_def)

lemma slice_to_nth: "i < length (slice_to k xs) \<Longrightarrow> slice_to k xs ! i = xs ! i"
  by (auto simp: slice_to_def split: if_splits)

lemma length_slice_to_le: "length (slice_to k xs) \<le> length xs"
  by (simp add: slice_to_def)

lemma distinct_slice_to: "distinct xs \<Longrightarrow> distinct (slice_to k xs)"
  by (simp add: slice_to_def)

text \<open>What a prefix of a descending list leaves out is no larger than what it keeps.\<close>

lemma descending_prefix_dominates:
  assumes "sorted (map f xs)" and "p \<in> set (slice_to k (rev xs))"
    and "q \<in> set xs" and "q \<notin> set (slice_to k (rev xs))"
  shows "f q \<le> f p"
proof -
  obtain m where m: "slice_to k (rev xs) = take m (rev xs)"
    using slice_to_take by blast
  have "sorted_wrt (\<lambda>x y. x \<ge> y) (rev (map f xs))"
    using assms(1) by (simp add: sorted_wrt_rev)
  then have "sorted_wrt (\<lambda>x y. x \<ge> y) (map f (rev xs))"
    by (simp add: rev_map)
  then have "sorted_wrt (\<lambda>x y. x \<ge> y) (map f (take m (rev xs)) @ map f (drop m (rev xs)))"
    by (simp flip: map_append)
  then have dom: "\<forall>x \<in> set (take m (rev xs)). \<forall>y \<in> set (drop m (rev xs)). f y \<le> f x"
    by (simp add: sorted_wrt_append)
  have "q \<in> set (take m (rev xs) @ drop m (rev xs))"
    using assms(3) by simp
  then have "q \<in> set (drop m (rev xs))"
    using assms(4) m by (simp only: set_append Un_iff) simp
  then show ?thesis using dom assms(2) m by simp
qed

text \<open>
  Claim C1, as amended. On an index whose stored embeddings are in step with its stored
  documents (one embedding per document, as after every successful \<^verbatim>\<open>index_documents\<close>), for
  every query the encoder accepts and every positive \<^verbatim>\<open>top_k\<close>, \<^verbatim>\<open>search\<close> returns exactly
  \<^verbatim>\<open>min(top_k, corpus size)\<close> pairs. The pairs belong to pairwise different corpus
  positions; each pairs the document at its position with the similarity of the query to
  the embedding at that position; the scores are in non-increasing order; and no document
  that is left out scores higher than one that is returned. A \<^verbatim>\<open>top_k\<close> above the corpus
  size gives the whole corpus. This holds for every \<^verbatim>\<open>argsort\<close> that sorts.
\<close>

theorem search_ranks_by_similarity:
  assumes "argsort_ok argsort"
    and "model self query = Inr qe"
    and "embeddings self = Some embs"
    and "length embs = length (documents self)"
    and "0 < top_k"
  shows "\<exists>top. search pytorch_cos_sim argsort self query top_k =
                 (Inr (map (\<lambda>p. (documents self ! p, pytorch_cos_sim qe (embs ! p))) top), self)
           \<and> length top = min (nat top_k) (length (documents self))
           \<and> distinct top
           \<and> set top \<subseteq> {0..<length (documents self)}
           \<and> sorted_wrt (\<lambda>x y. x \<ge> y) (map (\<lambda>p. pytorch_cos_sim qe (embs ! p)) top)
           \<and> (\<forall>q p. q < length (documents self) \<and> q \<notin> set top \<and> p \<in> set top \<longrightarrow>
                  pytorch_cos_sim qe (embs ! q) \<le> pytorch_cos_sim qe (embs ! p))"
proof -
  let ?sims = "map (pytorch_cos_sim qe) embs"
  let ?L = "argsort ?sims"
  let ?top = "slice_to top_k (rev ?L)"
  note ok = assms(1) and len = assms(4)
  have run: "search pytorch_cos_sim argsort self query top_k =
               (Inr (map (\<lambda>p. (documents self ! p, pytorch_cos_sim qe (embs ! p))) ?top), self)"
    using search_in_sync [OF ok assms(2) assms(3) len] .
  have L_set: "set ?L = {0..<length embs}"
    using argsort_ok_set [OF ok, of ?sims] by simp
  have sub: "set ?top \<subseteq> {0..<length (documents self)}"
    using set_slice_to [of top_k "rev ?L"] L_set len by auto
  have l: "length ?top = min (nat top_k) (length (documents self))"
    using assms(5) len by (simp add: length_slice_to argsort_ok_length [OF ok])
  have dist: "distinct ?top"
    using argsort_ok_distinct [OF ok, of ?sims] by (simp add: distinct_slice_to)
  have sims_nth: "?sims ! p = pytorch_cos_sim qe (embs ! p)" if "p < length embs" for p
    using that by simp
  have "sorted_wrt (\<lambda>x y. x \<ge> y) (map (\<lambda>p. ?sims ! p) ?top)"
    by (rule descending_prefix [OF argsort_ok_sorted [OF ok]])
  moreover have "map (\<lambda>p. ?sims ! p) ?top = map (\<lambda>p. pytorch_cos_sim qe (embs ! p)) ?top"
    using sub len by (intro map_cong refl sims_nth) auto
  ultimately have desc:
    "sorted_wrt (\<lambda>x y. x \<ge> y) (map (\<lambda>p. pytorch_cos_sim qe (embs ! p)) ?top)"
    by simp
  have best: "pytorch_cos_sim qe (embs ! q) \<le> pytorch_cos_sim qe (embs ! p)"
    if "q < length (documents self)" "q \<notin> set ?top" "p \<in> set ?top" for q p
  proof -
    have "q \<in> set ?L" using that(1) L_set len by simp
    then have "?sims ! q \<le> ?sims ! p"
      using descending_prefix_dominates [OF argsort_ok_sorted [OF ok] that(3) _ that(2)]
      by blast
    moreover have "q < length embs" using that(1) len by simp
    moreover have "p < length embs" using that(3) sub len by auto
    ultimately show ?thesis by simp
  qed
  from run l dist sub desc best show ?thesis by blast
qed

lemma pets_index_documents: "documents pets_index = [''cat'', ''dog'', ''kitten'']"
  by (simp add: run_defs)

theorem search_ranks_by_similarity_witness:
  "\<exists>top. search cos_sim stable_argsort pets_index ''dog'' 2 =
           (Inr (map (\<lambda>p. (documents pets_index ! p,
                            cos_sim [0, 1] ([[1, 0], [0, 1], [2, 0]] ! p))) top), pets_index)
     \<and> length top = min (nat 2) (length (documents pets_index))
     \<and> distinct top
     \<and> set top \<subseteq> {0..<length (documents pets_index)}
     \<and> sorted_wrt (\<lambda>x y. x \<ge> y) (map (\<lambda>p. cos_sim [0, 1] ([[1, 0], [0, 1], [2, 0]] ! p)) top)
     \<and> (\<forall>q p. q < length (documents pets_index) \<and> q \<notin> set top \<and> p \<in> set top \<longrightarrow>
            cos_sim [0, 1] ([[1, 0], [0, 1], [2, 0]] ! q)
              \<le> cos_sim [0, 1] ([[1, 0], [0, 1], [2, 0]] ! p))"
proof -
  have q: "model pets_index ''dog'' = Inr [0, 1]"
    by (simp add: pets_index_model toy_model_def)
  have len: "length [[1, 0], [0, 1], [2 :: real, 0]] = length (documents pets_index)"
    by (simp add: pets_index_documents)
  have k: "(0 :: int) < 2" by simp
  show ?thesis
    by (rule search_ranks_by_similarity [OF stable_argsort_ok q pets_index_embeddings len k])
qed

text \<open>
  The claim as stated fails on a populated index whose last \<^verbatim>\<open>index_documents\<close> raised:
  the three-document index holds two documents and three embeddings after the encoder
  rejected the batch, and \<^verbatim>\<open>search\<close> with \<^verbatim>\<open>top_k = 3\<close> raises \<^verbatim>\<open>IndexError\<close> instead of
  returning two pairs.
\<close>

theorem search_out_of_step_counterexample:
  "documents (snd (index_documents pets_index [''dog'', ''''])) = [''dog'', ''''] \<and>
   embeddings (snd (index_documents pets_index [''dog'', ''''])) = Some [[1, 0], [0, 1], [2, 0]] \<and>
   fst (search cos_sim stable_argsort (snd (index_documents pets_index [''dog'', ''''])) ''cat'' 3)
     = Inl IndexError"
  by (simp add: run_defs)

section \<open>Order of equal scores\<close>

text \<open>
  Claim C3, as amended. \<^verbatim>\<open>search\<close> has no tie-breaking by corpus position: its result lists
  the positions in the reverse of the order in which \<^verbatim>\<open>np.argsort\<close> lists them. Of two
  returned documents, in particular of two with identical score, the one that comes first
  in the result is the one that \<^verbatim>\<open>np.argsort\<close> lists later; which of two equal scores that
  is, is left to \<^verbatim>\<open>np.argsort\<close>.
\<close>

theorem search_ties_follow_argsort:
  assumes "argsort_ok argsort"
    and "model self query = Inr qe"
    and "embeddings self = Some embs"
    and "length embs = length (documents self)"
  shows "\<exists>top. search pytorch_cos_sim argsort self query top_k =
                 (Inr (map (\<lambda>p. (documents self ! p, pytorch_cos_sim qe (embs ! p))) top), self)
           \<and> distinct top
           \<and> (\<forall>a b. a < b \<and> b < length top \<longrightarrow>
                 (\<exists>a' b'. b' < a' \<and> a' < length embs
                    \<and> argsort (map (pytorch_cos_sim qe) embs) ! a' = top ! a
                    \<and> argsort (map (pytorch_cos_sim qe) embs) ! b' = top ! b))"
proof -
  let ?sims = "map (pytorch_cos_sim qe) embs"
  let ?L = "argsort ?sims"
  let ?top = "slice_to top_k (rev ?L)"
  note ok = assms(1)
  have run: "search pytorch_cos_sim argsort self query top_k =
               (Inr (map (\<lambda>p. (documents self ! p, pytorch_cos_sim qe (embs ! p))) ?top), self)"
    using search_in_sync [OF ok assms(2) assms(3) assms(4)] .
  have L_len: "length ?L = length embs"
    using argsort_ok_length [OF ok, of ?sims] by simp
  have dist: "distinct ?top"
    using argsort_ok_distinct [OF ok, of ?sims] by (simp add: distinct_slice_to)
  have rank: "?top ! a = ?L ! (length embs - Suc a) \<and> a < length embs"
    if "a < length ?top" for a
  proof -
    have "a < length (rev ?L)"
      using that length_slice_to_le [of top_k "rev ?L"] by simp
    then have "a < length ?L" by simp
    moreover have "?top ! a = rev ?L ! a"
      using that by (rule slice_to_nth)
    ultimately show ?thesis
      using L_len by (simp add: rev_nth)
  qed
  have order: "\<exists>a' b'. b' < a' \<and> a' < length embs \<and> ?L ! a' = ?top ! a \<and> ?L ! b' = ?top ! b"
    if "a < b" "b < length ?top" for a b
  proof -
    have a: "?top ! a = ?L ! (length embs - Suc a)" "a < length embs"
      using rank [of a] that by simp_all
    have b: "?top ! b = ?L ! (length embs - Suc b)" "b < length embs"
      using rank [of b] that by simp_all
    have "length embs - Suc b < length embs - Suc a"
      using that(1) b(2) by simp
    moreover have "length embs - Suc a < length embs"
      using a(2) by simp
    ultimately show ?thesis using a(1) b(1) by metis
  qed
  from run dist order show ?thesis by blast
qed

theorem search_ties_follow_argsort_witness:
  "\<exists>top. search cos_sim stable_argsort pets_index ''cat'' 3 =
           (Inr (map (\<lambda>p. (documents pets_index ! p,
                            cos_sim [1, 0] ([[1, 0], [0, 1], [2, 0]] ! p))) top), pets_index)
     \<and> distinct top
     \<and> (\<forall>a b. a < b \<and> b < length top \<longrightarrow>
           (\<exists>a' b'. b' < a' \<and> a' < length [[1, 0], [0, 1], [2 :: real, 0]]
              \<and> stable_argsort (map (cos_sim [1, 0]) [[1, 0], [0, 1], [2, 0]]) ! a' = top ! a
              \<and> stable_argsort (map (cos_sim [1, 0]) [[1, 0], [0, 1], [2, 0]]) ! b' = top ! b))"
proof -
  have q: "model pets_index ''cat'' = Inr [1, 0]"
    by (simp add: pets_index_model toy_model_def)
  have len: "length [[1, 0], [0, 1], [2 :: real, 0]] = length (documents pets_index)"
    by (simp add: pets_index_documents)
  show ?thesis
    by (rule search_ties_follow_argsort [OF stable_argsort_ok q pets_index_embeddings len])
qed

text \<open>
  The claim as stated (the smaller position first) fails: ``cat'' at position 0 and
  ``kitten'' at position 2 both score 1 against the query ``cat''; an argsort that lists
  the two in position order makes \<^verbatim>\<open>search\<close> return ``kitten'' first.
\<close>

theorem search_ties_counterexample:
  "documents pets_index ! 0 = ''cat'' \<and> documents pets_index ! 2 = ''kitten'' \<and>
   stable_argsort [1, 0, 1] = [1, 0, 2] \<and>
   fst (search cos_sim stable_argsort pets_index ''cat'' 3)
     = Inr [(''kitten'', 1), (''cat'', 1), (''dog'', 0)]"
  by (simp add: run_defs)

section \<open>A failing encoder during indexing\<close>

text \<open>
  Claim C2, as amended. If the encoder raises while \<^verbatim>\<open>index_documents(docs)\<close> embeds the
  batch, the error reaches the caller and the stored embeddings are the ones from before the
  call, but the stored documents are already the new batch. After a successful
  \<^verbatim>\<open>index_documents(docs)\<close> the stored documents are \<^verbatim>\<open>docs\<close>, the stored embeddings have the
  same length, and the embedding at each position is the encoder's vector for the document
  at that position.
\<close>

theorem index_documents_outcomes:
  "(\<forall>e. encode_batch (model self) docs = Inl e \<longrightarrow>
        index_documents self docs = (Inl e, self\<lparr>documents := docs\<rparr>)) \<and>
   (\<forall>self'. index_documents self docs = (Inr (), self') \<longrightarrow>
        (\<exists>embs. embeddings self' = Some embs \<and> documents self' = docs
           \<and> length embs = length docs
           \<and> (\<forall>i < length docs. model self' (docs ! i) = Inr (embs ! i))))"
proof (intro conjI allI impI)
  fix e
  assume "encode_batch (model self) docs = Inl e"
  then show "index_documents self docs = (Inl e, self\<lparr>documents := docs\<rparr>)"
    by (rule index_documents_Inl)
next
  fix self'
  assume "index_documents self docs = (Inr (), self')"
  then obtain embs where
    enc: "encode_batch (model self) docs = Inr embs" and m: "model self' = model self" and
    d: "documents self' = docs" and e: "embeddings self' = Some embs"
    using index_documents_Inr by blast
  have "length embs = length docs"
    using enc by (rule encode_batch_length)
  moreover have "\<forall>i < length docs. model self' (docs ! i) = Inr (embs ! i)"
    using enc m by (simp add: encode_batch_nth)
  ultimately show "\<exists>embs. embeddings self' = Some embs \<and> documents self' = docs
      \<and> length embs = length docs
      \<and> (\<forall>i < length docs. model self' (docs ! i) = Inr (embs ! i))"
    using d e by blast
qed

theorem index_documents_outcomes_witness:
  "index_documents pets_index [''dog'', ''''] =
     (Inl EmbeddingError, pets_index\<lparr>documents := [''dog'', '''']\<rparr>) \<and>
   (\<exists>embs. embeddings pets_index = Some embs
      \<and> documents pets_index = [''cat'', ''dog'', ''kitten'']
      \<and> length embs = 3
      \<and> model pets_index ''cat'' = Inr (embs ! 0)
      \<and> model pets_index ''dog'' = Inr (embs ! 1)
      \<and> model pets_index ''kitten'' = Inr (embs ! 2))"
proof -
  have a: "encode_batch (model pets_index) [''dog'', ''''] = Inl EmbeddingError"
    by (simp add: pets_index_model toy_model_def encode_batch_def)
  have b: "index_documents pets_index [''dog'', ''''] =
             (Inl EmbeddingError, pets_index\<lparr>documents := [''dog'', '''']\<rparr>)"
    using index_documents_outcomes [of pets_index "[''dog'', '''']"] a by blast
  from index_documents_outcomes [of "init toy_model" "[''cat'', ''dog'', ''kitten'']"]
    pets_index_indexed
  obtain embs where e: "embeddings pets_index = Some embs"
    "documents pets_index = [''cat'', ''dog'', ''kitten'']"
    "length embs = length [''cat'', ''dog'', ''kitten'']"
    "\<forall>i < length [''cat'', ''dog'', ''kitten''].
       model pets_index ([''cat'', ''dog'', ''kitten''] ! i) = Inr (embs ! i)"
    by blast
  have "model pets_index ''cat'' = Inr (embs ! 0)"
    using e(4) by (auto dest: spec [of _ 0])
  moreover have "model pets_index ''dog'' = Inr (embs ! 1)"
    using e(4) by (auto dest: spec [of _ 1])
  moreover have "model pets_index ''kitten'' = Inr (embs ! 2)"
    using e(4) by (auto dest: spec [of _ 2])
  ultimately show ?thesis using b e(1,2,3) by simp
qed

text \<open>
  The claim as stated fails: a batch whose second text the encoder rejects leaves the
  three-document index with two documents and three embeddings.
\<close>

theorem index_documents_failure_counterexample:
  "fst (index_documents pets_index [''dog'', '''']) = Inl EmbeddingError \<and>
   snd (index_documents pets_index [''dog'', '''']) \<noteq> pets_index \<and>
   documents (snd (index_documents pets_index [''dog'', ''''])) = [''dog'', ''''] \<and>
   embeddings (snd (index_documents pets_index [''dog'', ''''])) = Some [[1, 0], [0, 1], [2, 0]]"
  by (simp add: run_defs)

section \<open>Searching an empty or a fresh index\<close>

lemma argsort_ok_Nil: "argsort_ok argsort \<Longrightarrow> argsort [] = []"
  using argsort_ok_length [of argsort "[]"] by simp

lemma index_documents_Nil:
  "index_documents self0 [] = (Inr (), self0\<lparr>documents := [], embeddings := Some []\<rparr>)"
  by (simp add: index_documents_def encode_batch_def)

text \<open>
  Claim C4, as amended. For every query the encoder accepts and every \<^verbatim>\<open>top_k\<close>, \<^verbatim>\<open>search\<close>
  on an index populated with an empty document sequence returns an empty result sequence
  and raises nothing. An index that has never been populated is outside what \<^verbatim>\<open>search\<close>
  handles: its \<^verbatim>\<open>embeddings\<close> field is still \<^verbatim>\<open>None\<close> and the call raises \<^verbatim>\<open>TypeError\<close>.
\<close>

theorem search_empty_index:
  assumes "argsort_ok argsort"
    and "model self0 = enc"
    and "enc query = Inr qe"
  shows "(\<exists>self. index_documents self0 [] = (Inr (), self)
            \<and> search pytorch_cos_sim argsort self query top_k = (Inr [], self))
         \<and> search pytorch_cos_sim argsort (init enc) query top_k = (Inl TypeError, init enc)"
proof -
  let ?self = "self0\<lparr>documents := [], embeddings := Some []\<rparr>"
  have "search pytorch_cos_sim argsort ?self query top_k = (Inr [], ?self)"
    using assms by (simp add: search_def argsort_ok_Nil slice_to_def)
  moreover have "search pytorch_cos_sim argsort (init enc) query top_k = (Inl TypeError, init enc)"
    using assms(3) by (simp add: search_def init_def)
  ultimately show ?thesis using index_documents_Nil by blast
qed

theorem search_empty_index_witness:
  "(\<exists>self. index_documents pets_index [] = (Inr (), self)
      \<and> search cos_sim stable_argsort self ''cat'' 3 = (Inr [], self))
   \<and> search cos_sim stable_argsort (init toy_model) ''cat'' 3 = (Inl TypeError, init toy_model)"
proof -
  have "toy_model ''cat'' = Inr [1, 0]"
    by (simp add: toy_model_def)
  then show ?thesis
    by (rule search_empty_index [OF stable_argsort_ok pets_index_model])
qed

text \<open>
  The claim as stated fails on the never-populated index: the call raises.
\<close>

theorem search_unindexed_counterexample:
  "fst (search cos_sim stable_argsort (init toy_model) ''cat'' 3) = Inl TypeError"
  by (simp add: search_def init_def toy_model_def)

section \<open>Re-indexing\<close>

lemma search_Inr_D:
  assumes "search pytorch_cos_sim argsort self query top_k = (Inr rs, self')"
  shows "\<exists>qe embs top.
           model self query = Inr qe \<and> embeddings self = Some embs
           \<and> top = slice_to top_k (rev (argsort (map (pytorch_cos_sim qe) embs)))
           \<and> length rs = length top
           \<and> (\<forall>i < length rs. top ! i < length (documents self) \<and> top ! i < length embs
                 \<and> rs ! i = (documents self ! (top ! i), pytorch_cos_sim qe (embs ! (top ! i))))"
proof -
  from assms obtain qe where q: "model self query = Inr qe"
    by (auto simp: search_def split: sum.splits)
  from assms q obtain embs where e: "embeddings self = Some embs"
    by (auto simp: search_def split: option.splits)
  let ?sims = "map (pytorch_cos_sim qe) embs"
  let ?top = "slice_to top_k (rev (argsort ?sims))"
  let ?f = "\<lambda>idx. case list_index (documents self) idx of
                    Inl e \<Rightarrow> Inl e
                  | Inr d \<Rightarrow> (case list_index ?sims idx of
                               Inl e \<Rightarrow> Inl e | Inr s \<Rightarrow> Inr (d, s))"
  have c: "comprehend ?f ?top = Inr rs"
    using assms q e by (auto simp: search_def Let_def)
  have len: "length rs = length ?top"
    using c by (rule comprehend_Inr_length)
  have "?top ! i < length (documents self) \<and> ?top ! i < length embs
          \<and> rs ! i = (documents self ! (?top ! i), pytorch_cos_sim qe (embs ! (?top ! i)))"
    if "i < length rs" for i
  proof -
    have "?f (?top ! i) = Inr (rs ! i)"
      using comprehend_Inr_nth [OF c] that len by simp
    then show ?thesis
      by (auto simp: list_index_def split: if_splits)
  qed
  with q e len show ?thesis by blast
qed

text \<open>
  Claim C5. After \<^verbatim>\<open>index_documents(D1)\<close> (whatever its outcome) followed by a successful
  \<^verbatim>\<open>index_documents(D2)\<close>, the stored corpus is \<^verbatim>\<open>D2\<close> and every document a later \<^verbatim>\<open>search\<close>
  returns is a document of \<^verbatim>\<open>D2\<close>: re-indexing replaces the corpus, it does not append.
\<close>

theorem reindex_replaces_corpus:
  assumes "index_documents (snd (index_documents self0 D1)) D2 = (Inr (), self)"
    and "search pytorch_cos_sim argsort self query top_k = (Inr rs, self')"
  shows "documents self = D2 \<and> set (map fst rs) \<subseteq> set D2"
proof -
  have d: "documents self = D2"
    using assms(1) index_documents_Inr by blast
  from search_Inr_D [OF assms(2)] obtain top where
    r: "\<forall>i < length rs. top ! i < length (documents self)
          \<and> fst (rs ! i) = documents self ! (top ! i)"
    by fastforce
  have "x \<in> set D2" if "x \<in> set (map fst rs)" for x
  proof -
    from that obtain i where "i < length rs" "x = fst (rs ! i)"
      by (auto simp: in_set_conv_nth)
    then show ?thesis using r d by auto
  qed
  with d show ?thesis by blast
qed

theorem reindex_replaces_corpus_witness:
  "documents (snd (index_documents pets_index [''dog''])) = [''dog''] \<and>
   set (map fst [(''dog'', 0 :: real)]) \<subseteq> set [''dog'']"
proof -
  have a: "index_documents (snd (index_documents (init toy_model) [''cat'', ''dog'', ''kitten'']))
             [''dog''] = (Inr (), snd (index_documents pets_index [''dog'']))"
    by (simp add: run_defs)
  have b: "search cos_sim stable_argsort (snd (index_documents pets_index [''dog''])) ''cat'' 3
             = (Inr [(''dog'', 0)], snd (index_documents pets_index [''dog'']))"
    by (simp add: run_defs)
  show ?thesis
    by (rule reindex_replaces_corpus [OF a b])
qed

section \<open>Most similar documents\<close>

lemma find_most_similar_in_range:
  assumes ok: "argsort_ok argsort"
    and q: "np_index doc_embeddings doc_idx = Inr qe"
  shows "find_most_similar pytorch_cos_sim argsort doc_embeddings doc_idx top_k =
           (Inr (map (\<lambda>p. (p, pytorch_cos_sim qe (doc_embeddings ! p)))
                  (slice_to top_k (filter (\<lambda>idx. int idx \<noteq> doc_idx)
                     (rev (argsort (map (pytorch_cos_sim qe) doc_embeddings)))))),
            doc_embeddings)"
proof -
  let ?sims = "map (pytorch_cos_sim qe) doc_embeddings"
  let ?top = "slice_to top_k (filter (\<lambda>idx. int idx \<noteq> doc_idx) (rev (argsort ?sims)))"
  have in_range: "p < length doc_embeddings" if "p \<in> set ?top" for p
  proof -
    from that have "p \<in> set (argsort ?sims)" using set_slice_to by fastforce
    then show ?thesis using argsort_ok_set [OF ok, of ?sims] by simp
  qed
  have "comprehend
          (\<lambda>idx. case list_index ?sims idx of Inl e \<Rightarrow> Inl e | Inr s \<Rightarrow> Inr (idx, s)) ?top
        = Inr (map (\<lambda>p. (p, pytorch_cos_sim qe (doc_embeddings ! p))) ?top)"
    by (rule comprehend_all_Inr) (use in_range in \<open>simp add: list_index_def\<close>)
  then show ?thesis by (simp add: find_most_similar_def q Let_def)
qed

text \<open>
  Claim C6. For every valid corpus position \<^verbatim>\<open>p\<close> (\<^verbatim>\<open>0 <= p < n\<close>) and every positive
  \<^verbatim>\<open>top_k\<close>, \<^verbatim>\<open>find_most_similar(p, top_k)\<close> returns at most \<^verbatim>\<open>top_k\<close> results, at most
  \<^verbatim>\<open>n - 1\<close> results, and position \<^verbatim>\<open>p\<close> is not among them. On a three-document corpus
  \<^verbatim>\<open>find_most_similar(0)\<close> therefore returns at most two results, none of them position 0.
\<close>

theorem find_most_similar_excludes_query:
  assumes "argsort_ok argsort"
    and "0 \<le> doc_idx" and "doc_idx < int (length doc_embeddings)"
    and "0 < top_k"
  shows "\<exists>rs. find_most_similar pytorch_cos_sim argsort doc_embeddings doc_idx top_k
                = (Inr rs, doc_embeddings)
           \<and> int (length rs) \<le> top_k
           \<and> length rs \<le> length doc_embeddings - 1
           \<and> doc_idx \<notin> set (map (\<lambda>r. int (fst r)) rs)"
proof -
  let ?qe = "doc_embeddings ! nat doc_idx"
  let ?sims = "map (pytorch_cos_sim ?qe) doc_embeddings"
  let ?cands = "filter (\<lambda>idx. int idx \<noteq> doc_idx) (rev (argsort ?sims))"
  let ?top = "slice_to top_k ?cands"
  let ?rs = "map (\<lambda>p. (p, pytorch_cos_sim ?qe (doc_embeddings ! p))) ?top"
  have q: "np_index doc_embeddings doc_idx = Inr ?qe"
    using assms(2,3) by (simp add: np_index_def)
  have run: "find_most_similar pytorch_cos_sim argsort doc_embeddings doc_idx top_k
               = (Inr ?rs, doc_embeddings)"
    using find_most_similar_in_range [OF assms(1) q] .
  have "nat doc_idx \<in> set (rev (argsort ?sims))"
    using assms(2,3) argsort_ok_set [OF assms(1), of ?sims] by simp
  moreover have "\<not> int (nat doc_idx) \<noteq> doc_idx"
    using assms(2) by simp
  ultimately have "length ?cands < length (rev (argsort ?sims))"
    by (rule length_filter_less)
  then have cands: "length ?cands \<le> length doc_embeddings - 1"
    by (simp add: argsort_ok_length [OF assms(1)])
  have "length ?top \<le> length ?cands"
    using assms(4) by (simp add: length_slice_to)
  with cands have l1: "length ?rs \<le> length doc_embeddings - 1" by simp
  have l2: "int (length ?rs) \<le> top_k"
    using assms(4) by (simp add: length_slice_to)
  have "set ?top \<subseteq> set ?cands" by (rule set_slice_to)
  then have "doc_idx \<notin> set (map (\<lambda>r. int (fst r)) ?rs)"
    by (auto simp: comp_def)
  with run l1 l2 show ?thesis by blast
qed

theorem find_most_similar_excludes_query_witness:
  "\<exists>rs. find_most_similar cos_sim stable_argsort [[1, 0], [0, 1], [2, 0]] 0 3
           = (Inr rs, [[1, 0], [0, 1], [2, 0]])
     \<and> int (length rs) \<le> 3 \<and> length rs \<le> 2 \<and> 0 \<notin> set (map (\<lambda>r. int (fst r)) rs)"
  using find_most_similar_excludes_query
          [OF stable_argsort_ok, of 0 "[[1, 0], [0, 1], [2, 0]]" 3 cos_sim]
  by (simp add: numeral_2_eq_2)

section \<open>Positions outside the corpus\<close>




section \<open>Cosine similarity scores\<close>

text \<open>
  Claim C9. Every score that \<^verbatim>\<open>search\<close> returns belongs to a stored embedding \<^verbatim>\<open>b\<close> and is
  the similarity of the query vector \<^verbatim>\<open>a\<close> and \<^verbatim>\<open>b\<close>: \<^verbatim>\<open>dot(a,b) / (norm(a) * norm(b))\<close>, and
  0 when \<^verbatim>\<open>a\<close> or \<^verbatim>\<open>b\<close> has zero norm, so that the quotient is only formed with a non-zero
  divisor.
\<close>

theorem search_scores_are_cosine:
  assumes "search cos_sim argsort self query top_k = (Inr rs, self')"
    and "i < length rs"
  shows "\<exists>a embs p. model self query = Inr a \<and> embeddings self = Some embs
           \<and> p < length embs \<and> p < length (documents self)
           \<and> fst (rs ! i) = documents self ! p
           \<and> snd (rs ! i) =
               (if norm2 a = 0 \<or> norm2 (embs ! p) = 0 then 0
                else dot a (embs ! p) / (norm2 a * norm2 (embs ! p)))"
proof -
  from search_Inr_D [OF assms(1)] obtain a embs top where
    q: "model self query = Inr a" and e: "embeddings self = Some embs" and
    r: "\<forall>i < length rs. top ! i < length (documents self) \<and> top ! i < length embs
          \<and> rs ! i = (documents self ! (top ! i), cos_sim a (embs ! (top ! i)))"
    by blast
  from r assms(2) have
    "top ! i < length (documents self)" "top ! i < length embs"
    "rs ! i = (documents self ! (top ! i), cos_sim a (embs ! (top ! i)))"
    by simp_all
  then have "top ! i < length embs \<and> top ! i < length (documents self)
      \<and> fst (rs ! i) = documents self ! (top ! i)
      \<and> snd (rs ! i) =
          (if norm2 a = 0 \<or> norm2 (embs ! (top ! i)) = 0 then 0
           else dot a (embs ! (top ! i)) / (norm2 a * norm2 (embs ! (top ! i))))"
    by (simp add: cos_sim_def)
  with q e show ?thesis by blast
qed

theorem search_scores_are_cosine_witness:
  "\<exists>a embs p. model pets_index ''cat'' = Inr a \<and> embeddings pets_index = Some embs
     \<and> p < length embs \<and> p < length (documents pets_index)
     \<and> fst ([(''kitten'', 1 :: real), (''cat'', 1), (''dog'', 0)] ! 2) = documents pets_index ! p
     \<and> snd ([(''kitten'', 1 :: real), (''cat'', 1), (''dog'', 0)] ! 2) =
         (if norm2 a = 0 \<or> norm2 (embs ! p) = 0 then 0
          else dot a (embs ! p) / (norm2 a * norm2 (embs ! p)))"
proof -
  have run: "search cos_sim stable_argsort pets_index ''cat'' 3
               = (Inr [(''kitten'', 1), (''cat'', 1), (''dog'', 0)], pets_index)"
    by (simp add: run_defs)
  show ?thesis
    by (rule search_scores_are_cosine [OF run]) simp
qed

section \<open>Self-similarity\<close>

lemma dot_Nil: "dot [] b = 0" "dot a [] = 0"
  by (simp_all add: dot_def)

lemma dot_Cons: "dot (x # a) (y # b) = x * y + dot a b"
  by (simp add: dot_def)

lemma dot_self_nonneg: "0 \<le> dot a a"
  by (induction a) (simp_all add: dot_Nil dot_Cons)

lemma two_mult_le_sum:
  fixes u v w :: real
  assumes "0 \<le> u" "0 \<le> v" "w\<^sup>2 \<le> u * v"
  shows "2 * w \<le> u + v"
proof -
  have "(2 * w)\<^sup>2 = 4 * w\<^sup>2" by (simp add: power2_eq_square)
  also have "\<dots> \<le> 4 * (u * v)" using assms(3) by simp
  also have "\<dots> \<le> (u + v)\<^sup>2"
  proof -
    have "0 \<le> (u - v)\<^sup>2" by simp
    then show ?thesis by (simp add: power2_eq_square algebra_simps)
  qed
  finally have "(2 * w)\<^sup>2 \<le> (u + v)\<^sup>2" .
  moreover have "0 \<le> u + v" using assms(1,2) by simp
  ultimately show ?thesis by (rule power2_le_imp_le)
qed

text \<open>One more coordinate keeps the Cauchy-Schwarz inequality.\<close>

lemma dot_squared_step:
  fixes x y S A B :: real
  assumes ih: "S\<^sup>2 \<le> A * B" and A: "0 \<le> A" and B: "0 \<le> B"
  shows "(x * y + S)\<^sup>2 \<le> (x * x + A) * (y * y + B)"
proof -
  have "(x * y * S)\<^sup>2 = (x\<^sup>2 * y\<^sup>2) * S\<^sup>2"
    by (simp add: power_mult_distrib)
  also have "\<dots> \<le> (x\<^sup>2 * y\<^sup>2) * (A * B)"
    by (rule mult_left_mono [OF ih]) simp
  also have "\<dots> = (x\<^sup>2 * B) * (y\<^sup>2 * A)"
    by (simp add: mult_ac)
  finally have "(x * y * S)\<^sup>2 \<le> (x\<^sup>2 * B) * (y\<^sup>2 * A)" .
  moreover have "0 \<le> x\<^sup>2 * B" "0 \<le> y\<^sup>2 * A" using A B by simp_all
  ultimately have m: "2 * (x * y * S) \<le> x\<^sup>2 * B + y\<^sup>2 * A"
    using two_mult_le_sum by blast
  have "(x * y + S)\<^sup>2 = x\<^sup>2 * y\<^sup>2 + 2 * (x * y * S) + S\<^sup>2"
    by (simp add: power2_sum power_mult_distrib)
  also have "\<dots> \<le> x\<^sup>2 * y\<^sup>2 + (x\<^sup>2 * B + y\<^sup>2 * A) + A * B"
    using m ih by (intro add_mono) simp_all
  also have "\<dots> = (x * x + A) * (y * y + B)"
    by (simp add: power2_eq_square distrib_left distrib_right)
  finally show ?thesis .
qed

lemma dot_squared_le: "(dot a b)\<^sup>2 \<le> dot a a * dot b b"
proof (induction a arbitrary: b)
  case Nil
  then show ?case by (simp add: dot_Nil)
next
  case (Cons x a)
  show ?case
  proof (cases b)
    case Nil
    then show ?thesis by (simp add: dot_Nil)
  next
    case (Cons y b')
    have "(x * y + dot a b')\<^sup>2 \<le> (x * x + dot a a) * (y * y + dot b' b')"
      using Cons.IH dot_self_nonneg dot_self_nonneg by (rule dot_squared_step)
    then show ?thesis using Cons by (simp only: dot_Cons)
  qed
qed

lemma dot_le_norms: "dot a b \<le> norm2 a * norm2 b"
proof -
  have "dot a b \<le> \<bar>dot a b\<bar>" by simp
  also have "\<dots> = sqrt ((dot a b)\<^sup>2)" by simp
  also have "\<dots> \<le> sqrt (dot a a * dot b b)"
    using dot_squared_le by (simp only: real_sqrt_le_iff)
  also have "\<dots> = norm2 a * norm2 b"
    by (simp only: norm2_def real_sqrt_mult)
  finally show ?thesis .
qed

lemma norm2_nonneg: "0 \<le> norm2 a"
  by (simp add: norm2_def dot_self_nonneg)

lemma cos_sim_le_1: "cos_sim a b \<le> 1"
proof (cases "norm2 a = 0 \<or> norm2 b = 0")
  case True
  then show ?thesis by (simp add: cos_sim_def)
next
  case False
  then have "0 < norm2 a" "0 < norm2 b"
    using norm2_nonneg [of a] norm2_nonneg [of b] by (simp_all add: less_le)
  then have "0 < norm2 a * norm2 b" by simp
  then have "dot a b / (norm2 a * norm2 b) \<le> 1"
    using dot_le_norms [of a b] by (simp only: divide_le_eq_1_pos)
  then show ?thesis using False by (simp add: cos_sim_def)
qed

lemma cos_sim_self: "norm2 a \<noteq> 0 \<Longrightarrow> cos_sim a a = 1"
  using dot_self_nonneg [of a] by (simp add: cos_sim_def norm2_def)

lemma sorted_le_last:
  fixes x :: "'a :: linorder"
  shows "sorted xs \<Longrightarrow> x \<in> set xs \<Longrightarrow> x \<le> last xs"
  by (induction xs) auto

text \<open>With \<^verbatim>\<open>top_k = 1\<close> the result is the last position of the argsort.\<close>

lemma slice_to_1_rev: "xs \<noteq> [] \<Longrightarrow> slice_to 1 (rev xs) = [last xs]"
  by (cases xs rule: rev_cases) (simp_all add: slice_to_def)

text \<open>
  Claim C8, as amended. For every indexed document sequence and every document \<^verbatim>\<open>d\<close> in it
  whose embedding has non-zero norm, \<^verbatim>\<open>search(d, top_k=1)\<close> returns exactly one result, with
  score 1 (in exact arithmetic). The returned document is one whose embedding has cosine
  similarity 1 to the embedding of \<^verbatim>\<open>d\<close>; it is \<^verbatim>\<open>d\<close> itself whenever no other stored
  document has similarity 1 to \<^verbatim>\<open>d\<close>.
\<close>

theorem search_self_similarity:
  assumes "argsort_ok argsort"
    and "index_documents self0 docs = (Inr (), self)"
    and "embeddings self = Some embs"
    and "p < length docs"
    and "norm2 (embs ! p) \<noteq> 0"
  shows "\<exists>j < length docs.
           search cos_sim argsort self (docs ! p) 1 = (Inr [(docs ! j, 1)], self)
           \<and> cos_sim (embs ! p) (embs ! j) = 1
           \<and> ((\<forall>j' < length docs. j' \<noteq> p \<longrightarrow> cos_sim (embs ! p) (embs ! j') \<noteq> 1) \<longrightarrow> j = p)"
proof -
  from assms(2,3) obtain
    enc: "encode_batch (model self0) docs = Inr embs" and
    m: "model self = model self0" and d: "documents self = docs"
    using index_documents_Inr by fastforce
  have len: "length embs = length docs"
    using enc by (rule encode_batch_length)
  let ?qe = "embs ! p"
  have q: "model self (docs ! p) = Inr ?qe"
    using encode_batch_nth [OF enc assms(4)] m by simp
  let ?sims = "map (cos_sim ?qe) embs"
  let ?L = "argsort ?sims"
  let ?j = "last ?L"
  have L_len: "length ?L = length docs"
    using argsort_ok_length [OF assms(1), of ?sims] len by simp
  then have L_ne: "?L \<noteq> []" using assms(4) by auto
  have L_set: "set ?L = {0..<length docs}"
    using argsort_ok_set [OF assms(1), of ?sims] len by simp
  have j: "?j < length docs"
    using last_in_set [OF L_ne] L_set by simp
  have run: "search cos_sim argsort self (docs ! p) 1 = (Inr [(docs ! ?j, cos_sim ?qe (embs ! ?j))], self)"
    using search_in_sync [OF assms(1) q assms(3), of cos_sim 1] len d
    by (simp add: slice_to_1_rev [OF L_ne])
  have "?sims ! p \<le> last (map (\<lambda>i. ?sims ! i) ?L)"
  proof (rule sorted_le_last [OF argsort_ok_sorted [OF assms(1)]])
    show "?sims ! p \<in> set (map (\<lambda>i. ?sims ! i) ?L)"
      using L_set assms(4) by auto
  qed
  also have "\<dots> = ?sims ! ?j"
    using L_ne by (simp add: last_map)
  finally have "cos_sim ?qe ?qe \<le> cos_sim ?qe (embs ! ?j)"
    using j assms(4) len by simp
  then have one: "cos_sim ?qe (embs ! ?j) = 1"
    using cos_sim_self [OF assms(5)] cos_sim_le_1 [of ?qe "embs ! ?j"] by simp
  have "(\<forall>j' < length docs. j' \<noteq> p \<longrightarrow> cos_sim ?qe (embs ! j') \<noteq> 1) \<longrightarrow> ?j = p"
    using one j by blast
  with run one j show ?thesis by auto
qed

theorem search_self_similarity_witness:
  "\<exists>j < length [''cat'', ''dog'', ''kitten''].
     search cos_sim stable_argsort pets_index ([''cat'', ''dog'', ''kitten''] ! 1) 1
       = (Inr [([''cat'', ''dog'', ''kitten''] ! j, 1)], pets_index)
     \<and> cos_sim ([[1, 0], [0, 1], [2, 0]] ! 1) ([[1, 0], [0, 1], [2, 0]] ! j) = 1
     \<and> ((\<forall>j' < length [''cat'', ''dog'', ''kitten''].
            j' \<noteq> 1 \<longrightarrow> cos_sim ([[1, 0], [0, 1], [2, 0]] ! 1) ([[1, 0], [0, 1], [2, 0]] ! j') \<noteq> 1)
          \<longrightarrow> j = 1)"
proof -
  have a: "(1::nat) < length [''cat'', ''dog'', ''kitten'']" by simp
  have b: "norm2 ([[1, 0], [0, 1], [2, 0]] ! 1) \<noteq> 0"
    by (simp add: norm2_def dot_def)
  show ?thesis
    by (rule search_self_similarity
          [OF stable_argsort_ok pets_index_indexed pets_index_embeddings a b])
qed

text \<open>
  The claim as stated fails in two ways. Searching for ``cat'' in the three-document index
  returns ``kitten'', whose embedding is parallel to that of ``cat'' and ties with it at
  score 1; and a document that the encoder maps to the zero vector scores 0 against itself.
\<close>

theorem search_self_similarity_counterexample:
  "documents pets_index ! 0 = ''cat'' \<and>
   fst (search cos_sim stable_argsort pets_index ''cat'' 1) = Inr [(''kitten'', 1)] \<and>
   fst (search cos_sim stable_argsort (snd (index_documents (init toy_model) [''fish'']))
          ''fish'' 1) = Inr [(''fish'', 0)]"
  by (simp add: run_defs)

end
